theory Spec2Isabelle
  imports
    Main
    "HOL-Library.Finite_Map"
    "HOL-Library.Word"
    "HOL-Library.Char_ord"
    "HOL-Library.List_Lexorder"
begin

section \<open>The bounded cache\<close>

text \<open>
  The Go struct \<^verbatim>\<open>Cache\<close> has a read/write mutex, the map \<^verbatim>\<open>items\<close> from string to
  string, the capacity \<^verbatim>\<open>maxSize\<close> (a Go \<^verbatim>\<open>int\<close>) and two \<^verbatim>\<open>int64\<close> counters that
  are updated with \<^verbatim>\<open>atomic.AddInt64\<close>. The model is sequential: every method runs
  from its first line to its last without interleaving, so the mutex has no counterpart.
  A Go map is a finite map; the counters are 64-bit words, whose addition wraps as
  \<^verbatim>\<open>atomic.AddInt64\<close> does, and \<open>sint\<close> reads them as Go does.
\<close>

record Cache =
  items :: "(string, string) fmap"
  maxSize :: int
  hits :: "64 word"
  misses :: "64 word"

text \<open>Go's \<^verbatim>\<open>len(m)\<close> on a map: the number of entries, as an \<^verbatim>\<open>int\<close>.\<close>

definition len :: "(string, string) fmap \<Rightarrow> int" where
  "len m = int (fcard (fmdom m))"

text \<open>
  \<^verbatim>\<open>val, ok := c.items[key]\<close> yields the zero value of \<^verbatim>\<open>string\<close>, the empty string,
  and \<^verbatim>\<open>false\<close> for a key that is not in the map. The method returns \<^verbatim>\<open>(val, ok)\<close>;
  the model returns the updated cache with it.
\<close>

definition Get :: "Cache \<Rightarrow> string \<Rightarrow> (string \<times> bool) \<times> Cache" where
  "Get c key =
     (case fmlookup (items c) key of
        Some val \<Rightarrow> ((val, True), c\<lparr>hits := hits c + 1\<rparr>)
      | None \<Rightarrow> (([], False), c\<lparr>misses := misses c + 1\<rparr>))"

text \<open>
  \<^verbatim>\<open>for k := range c.items { delete(c.items, k); break }\<close> removes the key that the
  iteration visits first. Go leaves the iteration order of a map unspecified, so the
  key is the runtime's choice among the keys of the map; on an empty map the body does
  not run. The argument \<open>pref\<close> stands for that choice: \<open>range_first\<close> is \<open>pref\<close> when
  \<open>pref\<close> is a key of the map and otherwise the least key, so that every argument
  denotes an execution of the loop and every execution is denoted by some argument.
\<close>

definition range_first :: "string \<Rightarrow> (string, string) fmap \<Rightarrow> string option" where
  "range_first pref m =
     (if fmdom m = {||} then None
      else if pref |\<in>| fmdom m then Some pref
      else Some (fMin (fmdom m)))"

definition Set :: "string \<Rightarrow> Cache \<Rightarrow> string \<Rightarrow> string \<Rightarrow> Cache" where
  "Set pref c key val =
     (let items1 =
        (if maxSize c \<le> len (items c)
         then (case range_first pref (items c) of
                 Some k \<Rightarrow> fmdrop k (items c)
               | None \<Rightarrow> items c)
         else items c)
      in c\<lparr>items := fmupd key val items1\<rparr>)"

definition Delete :: "Cache \<Rightarrow> string \<Rightarrow> Cache" where
  "Delete c key = c\<lparr>items := fmdrop key (items c)\<rparr>"

definition NewCache :: "int \<Rightarrow> Cache" where
  "NewCache n = \<lparr>items = fmempty, maxSize = n, hits = 0, misses = 0\<rparr>"

text \<open>A sequence of calls on one cache, each \<^verbatim>\<open>Set\<close> with the runtime's choice of victim.\<close>

datatype cache_call =
    CallGet string
  | CallSet string string string
  | CallDelete string

fun apply_call :: "Cache \<Rightarrow> cache_call \<Rightarrow> Cache" where
  "apply_call c (CallGet key) = snd (Get c key)"
| "apply_call c (CallSet pref key val) = Set pref c key val"
| "apply_call c (CallDelete key) = Delete c key"

fun run_calls :: "Cache \<Rightarrow> cache_call list \<Rightarrow> Cache" where
  "run_calls c [] = c"
| "run_calls c (x # xs) = run_calls (apply_call c x) xs"

fun is_get :: "cache_call \<Rightarrow> bool" where
  "is_get (CallGet key) = True"
| "is_get (CallSet pref key val) = False"
| "is_get (CallDelete key) = False"

definition gets :: "cache_call list \<Rightarrow> nat" where
  "gets calls = length (filter is_get calls)"

text \<open>The resident keys of \<open>c\<close> that are no longer resident in \<open>c'\<close>.\<close>

definition evicted :: "Cache \<Rightarrow> Cache \<Rightarrow> string fset" where
  "evicted c c' = fmdom (items c) |-| fmdom (items c')"

section \<open>The store and the request handlers\<close>

text \<open>
  The table \<^verbatim>\<open>kv_store (key TEXT PRIMARY KEY, value TEXT)\<close> is a finite map from key to
  value. The three statements the handlers send have their SQL meaning on it:
  \<^verbatim>\<open>SELECT value ... WHERE key = $1\<close> scanned into a string is the lookup, with
  \<^verbatim>\<open>sql.ErrNoRows\<close> for a missing key; \<^verbatim>\<open>INSERT ... ON CONFLICT (key) DO UPDATE\<close> is the
  upsert; \<^verbatim>\<open>DELETE ... WHERE key = $1\<close> removes the row and is no error when there is
  none. Any statement may instead fail with another error (a lost connection, a value
  the database rejects), which leaves the table as it was; whether it does is the
  environment's choice, the argument \<open>fails\<close>.
\<close>

datatype sql_error = ErrNoRows | ErrOther

definition QueryRow_Scan :: "bool \<Rightarrow> (string, string) fmap \<Rightarrow> string \<Rightarrow> sql_error + string" where
  "QueryRow_Scan fails rows key =
     (if fails then Inl ErrOther
      else case fmlookup rows key of None \<Rightarrow> Inl ErrNoRows | Some v \<Rightarrow> Inr v)"

definition Exec_upsert ::
  "bool \<Rightarrow> (string, string) fmap \<Rightarrow> string \<Rightarrow> string \<Rightarrow> sql_error + (string, string) fmap" where
  "Exec_upsert fails rows key val = (if fails then Inl ErrOther else Inr (fmupd key val rows))"

definition Exec_delete ::
  "bool \<Rightarrow> (string, string) fmap \<Rightarrow> string \<Rightarrow> sql_error + (string, string) fmap" where
  "Exec_delete fails rows key = (if fails then Inl ErrOther else Inr (fmdrop key rows))"

text \<open>
  The body of a request is an \<^verbatim>\<open>io.Reader\<close>. One call \<^verbatim>\<open>Read(p)\<close> copies at most
  \<^verbatim>\<open>len(p)\<close> of the bytes that are still to come into the front of \<^verbatim>\<open>p\<close> and returns
  their number and an error. It may deliver fewer bytes than \<^verbatim>\<open>p\<close> has room for and
  than the client sent: \<open>avail\<close> is the number of bytes the transport has at hand for
  the first call, \<open>payload\<close> is all the client sent, \<open>rerr\<close> tells whether the call reports
  an error.
\<close>

record ReadCloser =
  payload :: string
  avail :: nat
  rerr :: bool

definition Read :: "ReadCloser \<Rightarrow> string \<Rightarrow> string \<times> nat \<times> bool" where
  "Read b p =
     (let n = min (length p) (min (avail b) (length (payload b)))
      in (take n (payload b) @ drop n p, n, rerr b))"

record Request =
  Method :: string
  Path :: string
  Body :: ReadCloser

text \<open>What a handler wrote to its \<^verbatim>\<open>http.ResponseWriter\<close>: the status code and the body.\<close>

record Response =
  status :: nat
  body :: string

text \<open>\<^verbatim>\<open>http.Error(w, msg, code)\<close> replies with the code and the message followed by a newline.\<close>

definition http_Error :: "string \<Rightarrow> nat \<Rightarrow> Response" where
  "http_Error msg code = \<lparr>status = code, body = msg @ [CHR 0x0A]\<rparr>"

text \<open>
  The calls a handler makes on the cache and on the store, in the order it makes them.
  The Go struct \<^verbatim>\<open>Server\<close> holds the database handle and the cache; the model holds
  the table and the cache, and keeps the history of calls in \<open>trace\<close> so that their order
  can be stated.
\<close>

datatype event =
    CacheGet string
  | CacheSet string string
  | CacheDelete string
  | DbSelect string
  | DbUpsert string string
  | DbDelete string

record Server =
  db :: "(string, string) fmap"
  cache :: Cache
  trace :: "event list"

text \<open>
  What the environment decides while one request is served: whether the statement sent
  to the database fails, and which key a \<^verbatim>\<open>range\<close> over the cache visits first.
\<close>

record Env =
  db_fails :: bool
  range_pref :: string

definition handleGet :: "Env \<Rightarrow> Server \<Rightarrow> string \<Rightarrow> Response \<times> Server" where
  "handleGet e s key =
     (let ((val, ok), c1) = Get (cache s) key;
          s1 = s\<lparr>cache := c1, trace := trace s @ [CacheGet key]\<rparr>
      in if ok then (\<lparr>status = 200, body = val\<rparr>, s1)
         else
           (let s2 = s1\<lparr>trace := trace s1 @ [DbSelect key]\<rparr>
            in case QueryRow_Scan (db_fails e) (db s) key of
                 Inl err \<Rightarrow>
                   (if err = ErrNoRows then (http_Error ''Key not found'' 404, s2)
                    else (http_Error ''Database error'' 500, s2))
               | Inr valueFromDB \<Rightarrow>
                   (\<lparr>status = 200, body = valueFromDB\<rparr>,
                    s2\<lparr>cache := Set (range_pref e) c1 key valueFromDB,
                       trace := trace s2 @ [CacheSet key valueFromDB]\<rparr>)))"

text \<open>The buffer of \<^verbatim>\<open>handlePut\<close>: \<^verbatim>\<open>make([]byte, 1024*1024)\<close>.\<close>

definition bufSize :: nat where
  "bufSize = 1024 * 1024"

definition handlePut :: "Env \<Rightarrow> Server \<Rightarrow> Request \<Rightarrow> string \<Rightarrow> Response \<times> Server" where
  "handlePut e s r key =
     (let (body1, n, err) = Read (Body r) (replicate bufSize (CHR 0x00));
          val = take n body1;
          s1 = s\<lparr>trace := trace s @ [DbUpsert key val]\<rparr>
      in case Exec_upsert (db_fails e) (db s) key val of
           Inl err \<Rightarrow> (http_Error ''Database error'' 500, s1)
         | Inr rows \<Rightarrow>
             (\<lparr>status = 200, body = []\<rparr>,
              s1\<lparr>db := rows, cache := Set (range_pref e) (cache s) key val,
                 trace := trace s1 @ [CacheSet key val]\<rparr>))"

definition handleDelete :: "Env \<Rightarrow> Server \<Rightarrow> string \<Rightarrow> Response \<times> Server" where
  "handleDelete e s key =
     (let s1 = s\<lparr>trace := trace s @ [DbDelete key]\<rparr>
      in case Exec_delete (db_fails e) (db s) key of
           Inl err \<Rightarrow> (http_Error ''Database error'' 500, s1)
         | Inr rows \<Rightarrow>
             (\<lparr>status = 200, body = []\<rparr>,
              s1\<lparr>db := rows, cache := Delete (cache s) key,
                 trace := trace s1 @ [CacheDelete key]\<rparr>))"

definition TrimPrefix :: "string \<Rightarrow> string \<Rightarrow> string" where
  "TrimPrefix s prefix = (if take (length prefix) s = prefix then drop (length prefix) s else s)"

definition kvHandler :: "Env \<Rightarrow> Server \<Rightarrow> Request \<Rightarrow> Response \<times> Server" where
  "kvHandler e s r =
     (let key = TrimPrefix (Path r) ''/kv/''
      in if key = [] then (http_Error ''Key is missing'' 400, s)
         else if Method r = ''GET'' then handleGet e s key
         else if Method r = ''PUT'' then handlePut e s r key
         else if Method r = ''DELETE'' then handleDelete e s key
         else (http_Error ''Method not allowed'' 405, s))"

text \<open>Requests served one after the other, each with the environment's choices for it.\<close>

fun serve :: "Server \<Rightarrow> (Env \<times> Request) list \<Rightarrow> Server" where
  "serve s [] = s"
| "serve s (x # xs) = serve (snd (kvHandler (fst x) s (snd x))) xs"

text \<open>
  The value \<^verbatim>\<open>handlePut\<close> takes from a request: what one \<^verbatim>\<open>Read\<close> into the buffer
  delivers.
\<close>

definition read_value :: "Request \<Rightarrow> string" where
  "read_value r = take (min bufSize (avail (Body r))) (payload (Body r))"

text \<open>A request that writes or removes the key \<open>k\<close>.\<close>

definition writes_or_removes :: "string \<Rightarrow> Request \<Rightarrow> bool" where
  "writes_or_removes k r \<longleftrightarrow>
     TrimPrefix (Path r) ''/kv/'' = k \<and> (Method r = ''PUT'' \<or> Method r = ''DELETE'')"

section \<open>Concrete states and requests\<close>

text \<open>A cache of capacity 2 that holds two entries.\<close>

definition cache_ab :: Cache where
  "cache_ab = run_calls (NewCache 2) [CallSet [] ''a'' ''1'', CallSet [] ''b'' ''2'']"

definition env_ok :: Env where
  "env_ok = \<lparr>db_fails = False, range_pref = []\<rparr>"

definition env_down :: Env where
  "env_down = \<lparr>db_fails = True, range_pref = []\<rparr>"

text \<open>A server with an empty table and an empty cache of capacity \<open>n\<close>.\<close>

definition server0 :: "int \<Rightarrow> Server" where
  "server0 n = \<lparr>db = fmempty, cache = NewCache n, trace = []\<rparr>"

text \<open>A request whose body arrives whole with the first read.\<close>

definition request :: "string \<Rightarrow> string \<Rightarrow> string \<Rightarrow> Request" where
  "request m key v =
     \<lparr>Method = m, Path = ''/kv/'' @ key, Body = \<lparr>payload = v, avail = length v, rerr = False\<rparr>\<rparr>"

text \<open>The table holds \<open>v\<close> under \<open>k\<close>, and the cache is still empty (a restarted server).\<close>

definition server_cold :: Server where
  "server_cold = \<lparr>db = fmupd ''k'' ''v'' fmempty, cache = NewCache 2, trace = []\<rparr>"

text \<open>The server after \<^verbatim>\<open>PUT /kv/k\<close> with body \<open>v\<close>.\<close>

definition server_kv :: Server where
  "server_kv = snd (kvHandler env_ok (server0 2) (request ''PUT'' ''k'' ''v''))"

text \<open>A write whose body is one byte longer than the buffer of \<^verbatim>\<open>handlePut\<close>.\<close>

definition big_put :: Request where
  "big_put =
     \<lparr>Method = ''PUT'', Path = ''/kv/k'',
      Body = \<lparr>payload = replicate (Suc bufSize) (CHR ''x''), avail = Suc bufSize, rerr = False\<rparr>\<rparr>"

text \<open>A write whose first read delivers two of five bytes and reports an error.\<close>

definition torn_put :: Request where
  "torn_put =
     \<lparr>Method = ''PUT'', Path = ''/kv/k'',
      Body = \<lparr>payload = ''hello'', avail = 2, rerr = True\<rparr>\<rparr>"

text \<open>
  The state of the key \<open>k\<close> between a write of \<open>v\<close> that succeeded and the next write or
  removal of \<open>k\<close>: the table holds \<open>v\<close> under \<open>k\<close>, and the cache holds \<open>v\<close> under \<open>k\<close> or
  has no entry for \<open>k\<close>.
\<close>

definition fresh :: "string \<Rightarrow> string \<Rightarrow> Server \<Rightarrow> bool" where
  "fresh k v s \<longleftrightarrow>
     fmlookup (db s) k = Some v \<and>
     (fmlookup (items (cache s)) k = None \<or> fmlookup (items (cache s)) k = Some v)"

section \<open>Properties of the cache\<close>

lemma range_first_None: "range_first pref m = None \<longleftrightarrow> fmdom m = {||}"
  by (simp add: range_first_def)

lemma range_first_Some: "range_first pref m = Some k \<Longrightarrow> k |\<in>| fmdom m"
proof (cases "fmdom m = {||}")
  case True
  then show "range_first pref m = Some k \<Longrightarrow> k |\<in>| fmdom m"
    by (simp add: range_first_def)
next
  case False
  then have least: "fMin (fmdom m) |\<in>| fmdom m"
    by (rule fMin_in)
  assume "range_first pref m = Some k"
  with False have "k = pref \<and> pref |\<in>| fmdom m \<or> k = fMin (fmdom m)"
    by (simp add: range_first_def split: if_splits)
  with least show "k |\<in>| fmdom m"
    by blast
qed

lemma cache_ab_eq:
  "cache_ab =
     \<lparr>items = fmupd ''b'' ''2'' (fmupd ''a'' ''1'' fmempty), maxSize = 2, hits = 0, misses = 0\<rparr>"
  by (simp add: cache_ab_def NewCache_def Set_def len_def range_first_def Let_def
      fcard_finsert_if fcard_fempty)

lemma range_first_nonempty:
  assumes "0 < len m"
  obtains k where "range_first pref m = Some k" and "k |\<in>| fmdom m"
proof -
  from assms have "fmdom m \<noteq> {||}"
    by (auto simp: len_def fcard_fempty)
  then obtain k where k: "range_first pref m = Some k"
    using range_first_None [of pref m] by (cases "range_first pref m") auto
  then have "k |\<in>| fmdom m"
    by (rule range_first_Some)
  with k that show thesis
    by blast
qed

lemma Set_below:
  "len (items c) < maxSize c \<Longrightarrow> items (Set pref c key val) = fmupd key val (items c)"
  by (simp add: Set_def)

lemma Set_full:
  assumes "maxSize c \<le> len (items c)" and "0 < len (items c)"
  shows "\<exists>victim. victim |\<in>| fmdom (items c) \<and>
           items (Set pref c key val) = fmupd key val (fmdrop victim (items c))"
proof -
  from assms(2) obtain k where k: "range_first pref (items c) = Some k" "k |\<in>| fmdom (items c)"
    by (rule range_first_nonempty)
  with assms(1) have "items (Set pref c key val) = fmupd key val (fmdrop k (items c))"
    by (simp add: Set_def)
  with k(2) show ?thesis
    by blast
qed

lemma Set_empty:
  "len (items c) = 0 \<Longrightarrow> items (Set pref c key val) = fmupd key val (items c)"
  by (simp add: Set_def len_def range_first_def)

text \<open>
  C1, as amended: \<^verbatim>\<open>Set\<close> always leaves the value under the key. Below capacity it
  inserts or overwrites the entry and evicts nothing. When the number of entries has
  reached \<^verbatim>\<open>maxSize\<close> and the cache holds an entry, exactly one resident entry, the
  victim, is removed and the entry is inserted after that, whether or not the key is
  resident: the victim is evicted unless it is the entry of the key itself, which the
  insertion puts back, and so it is evicted whenever the key is not resident. When the
  cache is empty, which is at capacity for \<open>maxSize \<le> 0\<close>, nothing is evicted.
\<close>

theorem Set_eviction:
  "fmlookup (items (Set pref c key val)) key = Some val \<and>
   (len (items c) < maxSize c \<longrightarrow>
      items (Set pref c key val) = fmupd key val (items c) \<and>
      evicted c (Set pref c key val) = {||}) \<and>
   (maxSize c \<le> len (items c) \<and> 0 < len (items c) \<longrightarrow>
      (\<exists>victim. victim |\<in>| fmdom (items c) \<and>
         items (Set pref c key val) = fmupd key val (fmdrop victim (items c)) \<and>
         evicted c (Set pref c key val) = {|victim|} |-| {|key|} \<and>
         (key |\<notin>| fmdom (items c) \<longrightarrow> evicted c (Set pref c key val) = {|victim|}))) \<and>
   (maxSize c \<le> len (items c) \<and> len (items c) = 0 \<longrightarrow>
      items (Set pref c key val) = fmupd key val (items c) \<and>
      evicted c (Set pref c key val) = {||})"
proof (intro conjI impI)
  show "fmlookup (items (Set pref c key val)) key = Some val"
    by (simp add: Set_def Let_def)
next
  assume "len (items c) < maxSize c"
  then show "items (Set pref c key val) = fmupd key val (items c)"
    by (rule Set_below)
  then show "evicted c (Set pref c key val) = {||}"
    by (auto simp: evicted_def)
next
  assume a: "maxSize c \<le> len (items c) \<and> 0 < len (items c)"
  then obtain victim where v: "victim |\<in>| fmdom (items c)"
      "items (Set pref c key val) = fmupd key val (fmdrop victim (items c))"
    using Set_full [of c pref key val] by blast
  from v have gone: "evicted c (Set pref c key val) = {|victim|} |-| {|key|}"
    by (auto simp: evicted_def)
  from v have "key |\<notin>| fmdom (items c) \<longrightarrow> evicted c (Set pref c key val) = {|victim|}"
    by (auto simp: evicted_def)
  with v gone show "\<exists>victim. victim |\<in>| fmdom (items c) \<and>
         items (Set pref c key val) = fmupd key val (fmdrop victim (items c)) \<and>
         evicted c (Set pref c key val) = {|victim|} |-| {|key|} \<and>
         (key |\<notin>| fmdom (items c) \<longrightarrow> evicted c (Set pref c key val) = {|victim|})"
    by blast
next
  assume "maxSize c \<le> len (items c) \<and> len (items c) = 0"
  then show "items (Set pref c key val) = fmupd key val (items c)"
    by (simp add: Set_empty)
  then show "evicted c (Set pref c key val) = {||}"
    by (auto simp: evicted_def)
qed

theorem Set_eviction_witness:
  "len (items (NewCache 2)) < maxSize (NewCache 2) \<and>
   items (Set [] (NewCache 2) ''a'' ''1'') = fmupd ''a'' ''1'' fmempty \<and>
   maxSize cache_ab \<le> len (items cache_ab) \<and> 0 < len (items cache_ab) \<and>
   ''c'' |\<notin>| fmdom (items cache_ab) \<and>
   evicted cache_ab (Set ''a'' cache_ab ''c'' ''3'') = {|''a''|} \<and>
   fmlookup (items (Set ''a'' cache_ab ''c'' ''3'')) ''c'' = Some ''3'' \<and>
   fmlookup (items (Set ''a'' cache_ab ''c'' ''3'')) ''b'' = Some ''2'' \<and>
   ''b'' |\<in>| fmdom (items cache_ab) \<and>
   evicted cache_ab (Set ''a'' cache_ab ''b'' ''7'') = {|''a''|} \<and>
   fmlookup (items (Set ''a'' cache_ab ''b'' ''7'')) ''b'' = Some ''7'' \<and>
   evicted cache_ab (Set ''b'' cache_ab ''b'' ''7'') = {||} \<and>
   fmlookup (items (Set ''b'' cache_ab ''b'' ''7'')) ''b'' = Some ''7'' \<and>
   fmlookup (items (Set ''b'' cache_ab ''b'' ''7'')) ''a'' = Some ''1'' \<and>
   maxSize (NewCache 0) \<le> len (items (NewCache 0)) \<and> len (items (NewCache 0)) = 0 \<and>
   items (Set [] (NewCache 0) ''a'' ''1'') = fmupd ''a'' ''1'' fmempty"
  using Set_eviction [of "[]" "NewCache 2" "''a''" "''1''"]
    Set_eviction [of "''a''" cache_ab "''c''" "''3''"]
    Set_eviction [of "''a''" cache_ab "''b''" "''7''"]
    Set_eviction [of "''b''" cache_ab "''b''" "''7''"]
    Set_eviction [of "[]" "NewCache 0" "''a''" "''1''"]
  by (auto simp add: cache_ab_eq NewCache_def Set_def len_def range_first_def Let_def
      fcard_finsert_if fcard_fempty evicted_def)

text \<open>
  C1 as stated fails. The cache of capacity 2 holds \<open>a\<close> and \<open>b\<close>: \<^verbatim>\<open>Set("a", "9")\<close>
  overwrites a resident key, and when the loop visits \<open>b\<close> first, \<open>b\<close> is evicted. The
  new cache of capacity 0 is at capacity and \<open>a\<close> is not resident: \<^verbatim>\<open>Set("a", "1")\<close>
  finds no entry to evict.
\<close>

theorem Set_eviction_counterexample:
  "len (items cache_ab) = maxSize cache_ab \<and> ''a'' |\<in>| fmdom (items cache_ab) \<and>
   evicted cache_ab (Set ''b'' cache_ab ''a'' ''9'') = {|''b''|} \<and>
   len (items (NewCache 0)) = maxSize (NewCache 0) \<and> ''a'' |\<notin>| fmdom (items (NewCache 0)) \<and>
   evicted (NewCache 0) (Set [] (NewCache 0) ''a'' ''1'') = {||}"
  by (auto simp add: cache_ab_eq NewCache_def Set_def len_def range_first_def Let_def
      fcard_finsert_if fcard_fempty evicted_def)

lemma fmdom_Set:
  "fmdom (items (Set pref c key val)) =
     finsert key
       (if maxSize c \<le> len (items c)
        then (case range_first pref (items c) of
                Some k \<Rightarrow> fmdom (items c) |-| {|k|}
              | None \<Rightarrow> fmdom (items c))
        else fmdom (items c))"
  by (simp add: Set_def Let_def split: option.split)

lemma len_Set_le:
  assumes "1 \<le> maxSize c" and "len (items c) \<le> maxSize c"
  shows "len (items (Set pref c key val)) \<le> maxSize c"
proof (cases "maxSize c \<le> len (items c)")
  case False
  have "fcard (finsert key (fmdom (items c))) \<le> Suc (fcard (fmdom (items c)))"
    by (simp add: fcard_finsert_if)
  with False show ?thesis
    by (simp add: fmdom_Set len_def)
next
  case True
  with assms(1) have "0 < len (items c)"
    by simp
  then obtain k where k: "range_first pref (items c) = Some k" "k |\<in>| fmdom (items c)"
    by (rule range_first_nonempty)
  from k(2) have "fcard (fmdom (items c) |-| {|k|}) < fcard (fmdom (items c))"
    by (rule fcard_fminus1_less)
  moreover have "fcard (finsert key (fmdom (items c) |-| {|k|}))
      \<le> Suc (fcard (fmdom (items c) |-| {|k|}))"
    by (simp add: fcard_finsert_if)
  ultimately have "fcard (finsert key (fmdom (items c) |-| {|k|})) \<le> fcard (fmdom (items c))"
    by linarith
  with True k(1) assms(2) show ?thesis
    by (simp add: fmdom_Set len_def)
qed

lemma maxSize_apply_call: "maxSize (apply_call c x) = maxSize c"
  by (cases x) (simp_all add: Get_def Set_def Delete_def Let_def split: option.split)

lemma len_apply_call_le:
  assumes "1 \<le> maxSize c" and "len (items c) \<le> maxSize c"
  shows "len (items (apply_call c x)) \<le> maxSize c"
proof (cases x)
  case (CallGet key)
  with assms show ?thesis
    by (simp add: Get_def split: option.split)
next
  case (CallSet pref key val)
  with assms show ?thesis
    by (simp add: len_Set_le)
next
  case (CallDelete key)
  have "fcard (fmdom (items c) |-| {|key|}) \<le> fcard (fmdom (items c))"
    by (rule fcard_fminus1_le)
  with assms CallDelete show ?thesis
    by (simp add: Delete_def len_def)
qed

lemma run_calls_bounded:
  "1 \<le> maxSize c \<Longrightarrow> len (items c) \<le> maxSize c \<Longrightarrow>
   len (items (run_calls c calls)) \<le> maxSize c \<and> maxSize (run_calls c calls) = maxSize c"
proof (induction calls arbitrary: c)
  case Nil
  then show ?case by simp
next
  case (Cons x xs)
  have "1 \<le> maxSize (apply_call c x)"
      "len (items (apply_call c x)) \<le> maxSize (apply_call c x)"
    using Cons.prems by (simp_all add: maxSize_apply_call len_apply_call_le)
  from Cons.IH [OF this] show ?case
    by (simp add: maxSize_apply_call)
qed

text \<open>
  C2, as amended: from an empty cache of capacity \<open>n\<close> with \<open>1 \<le> n\<close>, after any sequence
  of \<^verbatim>\<open>Set\<close>, \<^verbatim>\<open>Get\<close> and \<^verbatim>\<open>Delete\<close> calls the cache holds at most \<open>n\<close> entries.
\<close>

theorem capacity_bound:
  "1 \<le> n \<Longrightarrow> len (items (run_calls (NewCache n) calls)) \<le> n"
  using run_calls_bounded [of "NewCache n" calls]
  by (simp add: NewCache_def len_def fcard_fempty)

theorem capacity_bound_witness:
  "(1::int) \<le> 2 \<and>
   len (items (run_calls (NewCache 2)
     [CallSet [] ''a'' ''1'', CallSet [] ''b'' ''2'', CallGet ''a'', CallSet ''a'' ''c'' ''3''])) \<le> 2"
  using capacity_bound [of 2
      "[CallSet [] ''a'' ''1'', CallSet [] ''b'' ''2'', CallGet ''a'', CallSet ''a'' ''c'' ''3'']"]
  by simp

text \<open>
  C2 as stated fails for capacity 0: one \<^verbatim>\<open>Set\<close> on the empty cache leaves one entry.
\<close>

theorem capacity_zero_counterexample:
  "len (items (run_calls (NewCache 0) [CallSet [] ''a'' ''1''])) = 1 \<and>
   maxSize (run_calls (NewCache 0) [CallSet [] ''a'' ''1'']) = 0"
  by (simp add: NewCache_def Set_def len_def range_first_def Let_def fcard_finsert_if fcard_fempty)

lemma run_calls_counters:
  "\<exists>h m. h + m = gets calls \<and>
     hits (run_calls c calls) = hits c + of_nat h \<and>
     misses (run_calls c calls) = misses c + of_nat m"
proof (induction calls arbitrary: c)
  case Nil
  show ?case by (simp add: gets_def)
next
  case (Cons x xs)
  obtain h m where hm: "h + m = gets xs"
      "hits (run_calls (apply_call c x) xs) = hits (apply_call c x) + of_nat h"
      "misses (run_calls (apply_call c x) xs) = misses (apply_call c x) + of_nat m"
    using Cons.IH [of "apply_call c x"] by blast
  show ?case
  proof (cases x)
    case (CallGet key)
    show ?thesis
    proof (cases "fmlookup (items c) key")
      case None
      with CallGet hm have "h + Suc m = gets (x # xs) \<and>
         hits (run_calls c (x # xs)) = hits c + of_nat h \<and>
         misses (run_calls c (x # xs)) = misses c + of_nat (Suc m)"
        by (simp add: gets_def Get_def)
      then show ?thesis by blast
    next
      case (Some v)
      with CallGet hm have "Suc h + m = gets (x # xs) \<and>
         hits (run_calls c (x # xs)) = hits c + of_nat (Suc h) \<and>
         misses (run_calls c (x # xs)) = misses c + of_nat m"
        by (simp add: gets_def Get_def)
      then show ?thesis by blast
    qed
  next
    case (CallSet pref key val)
    with hm have "h + m = gets (x # xs) \<and>
         hits (run_calls c (x # xs)) = hits c + of_nat h \<and>
         misses (run_calls c (x # xs)) = misses c + of_nat m"
      by (simp add: gets_def Set_def Let_def)
    then show ?thesis by blast
  next
    case (CallDelete key)
    with hm have "h + m = gets (x # xs) \<and>
         hits (run_calls c (x # xs)) = hits c + of_nat h \<and>
         misses (run_calls c (x # xs)) = misses c + of_nat m"
      by (simp add: gets_def Delete_def)
    then show ?thesis by blast
  qed
qed

lemma sint_of_nat_small:
  assumes "n < 2 ^ 63"
  shows "sint (of_nat n :: 64 word) = int n"
proof -
  have "int n < 2 ^ 63"
    using assms by (metis of_nat_less_iff of_nat_numeral of_nat_power)
  moreover have "- (2 ^ 63) \<le> int n"
    by (rule order_trans [of _ 0]) simp_all
  ultimately have "signed_take_bit 63 (int n) = int n"
    by (rule signed_take_bit_int_eq_self [rotated])
  then show ?thesis
    by (simp add: signed_of_nat)
qed

text \<open>
  C3: a \<^verbatim>\<open>Get\<close> adds one to the hit counter and leaves the miss counter when the key
  is resident, and adds one to the miss counter and leaves the hit counter when it is
  not. After any sequence of calls on a new cache the two \<^verbatim>\<open>int64\<close> counters add up to
  the number of \<^verbatim>\<open>Get\<close> calls in 64-bit arithmetic, and to that number exactly as long
  as it is below \<open>2 ^ 63\<close>.
\<close>

theorem counters_sum:
  "(let r = Get c key; c' = snd r; found = snd (fst r) in
      (found \<longleftrightarrow> key |\<in>| fmdom (items c)) \<and>
      (found \<longrightarrow> hits c' = hits c + 1 \<and> misses c' = misses c) \<and>
      (\<not> found \<longrightarrow> misses c' = misses c + 1 \<and> hits c' = hits c)) \<and>
   hits (run_calls (NewCache n) calls) + misses (run_calls (NewCache n) calls)
     = of_nat (gets calls) \<and>
   (gets calls < 2 ^ 63 \<longrightarrow>
      sint (hits (run_calls (NewCache n) calls)) + sint (misses (run_calls (NewCache n) calls))
        = int (gets calls))"
proof (intro conjI impI)
  show "let r = Get c key; c' = snd r; found = snd (fst r) in
      (found \<longleftrightarrow> key |\<in>| fmdom (items c)) \<and>
      (found \<longrightarrow> hits c' = hits c + 1 \<and> misses c' = misses c) \<and>
      (\<not> found \<longrightarrow> misses c' = misses c + 1 \<and> hits c' = hits c)"
    by (auto simp: Get_def Let_def fmlookup_dom_iff split: option.split)
next
  obtain h m where hm: "h + m = gets calls"
      "hits (run_calls (NewCache n) calls) = of_nat h"
      "misses (run_calls (NewCache n) calls) = of_nat m"
    using run_calls_counters [of calls "NewCache n"] by (auto simp: NewCache_def)
  show "hits (run_calls (NewCache n) calls) + misses (run_calls (NewCache n) calls)
      = of_nat (gets calls)"
    using hm by (simp flip: of_nat_add)
  assume "gets calls < 2 ^ 63"
  with hm(1) have "h < 2 ^ 63" "m < 2 ^ 63"
    by simp_all
  then have "sint (of_nat h :: 64 word) = int h" "sint (of_nat m :: 64 word) = int m"
    by (simp_all add: sint_of_nat_small)
  with hm show "sint (hits (run_calls (NewCache n) calls))
      + sint (misses (run_calls (NewCache n) calls)) = int (gets calls)"
    by simp
qed

theorem counters_sum_witness:
  "snd (fst (Get cache_ab ''a'')) \<and> hits (snd (Get cache_ab ''a'')) = 1 \<and>
   \<not> snd (fst (Get cache_ab ''z'')) \<and> misses (snd (Get cache_ab ''z'')) = 1 \<and>
   gets [CallGet ''a'', CallSet [] ''a'' ''1'', CallGet ''a'', CallDelete ''a'', CallGet ''a'']
     < 2 ^ 63 \<and>
   sint (hits (run_calls (NewCache 2)
     [CallGet ''a'', CallSet [] ''a'' ''1'', CallGet ''a'', CallDelete ''a'', CallGet ''a''])) +
   sint (misses (run_calls (NewCache 2)
     [CallGet ''a'', CallSet [] ''a'' ''1'', CallGet ''a'', CallDelete ''a'', CallGet ''a''])) = 3"
  using counters_sum [of cache_ab "''a''" 2
      "[CallGet ''a'', CallSet [] ''a'' ''1'', CallGet ''a'', CallDelete ''a'', CallGet ''a'']"]
    counters_sum [of cache_ab "''z''" 2 "[]"]
  by (simp add: cache_ab_eq gets_def Get_def Let_def)

text \<open>
  C9: \<^verbatim>\<open>Set\<close> and \<^verbatim>\<open>Delete\<close> leave the hit and the miss counter as they were, and
  \<^verbatim>\<open>Get\<close> adds one to one of them.
\<close>

theorem counters_frame:
  "hits (Set pref c key val) = hits c \<and> misses (Set pref c key val) = misses c \<and>
   hits (Delete c key) = hits c \<and> misses (Delete c key) = misses c \<and>
   (hits (snd (Get c key)) = hits c + 1 \<and> misses (snd (Get c key)) = misses c \<or>
    hits (snd (Get c key)) = hits c \<and> misses (snd (Get c key)) = misses c + 1)"
  by (simp add: Set_def Delete_def Get_def Let_def split: option.split)

text \<open>
  C10: for a key that is not resident, \<^verbatim>\<open>Get\<close> returns the empty string and
  \<^verbatim>\<open>found = false\<close>.
\<close>

theorem Get_absent:
  "key |\<notin>| fmdom (items c) \<Longrightarrow> fst (Get c key) = ('''', False)"
  by (simp add: Get_def fmdom_notD)

theorem Get_absent_witness:
  "''k'' |\<notin>| fmdom (items (NewCache 2)) \<and> fst (Get (NewCache 2) ''k'') = ('''', False)"
  using Get_absent [of "''k''" "NewCache 2"] by (simp add: NewCache_def)

lemma Set_lookup_key: "fmlookup (items (Set pref c key val)) key = Some val"
  by (simp add: Set_def Let_def)

lemma Set_lookup_other:
  "key \<noteq> k \<Longrightarrow>
   fmlookup (items (Set pref c key val)) k = None \<or>
   fmlookup (items (Set pref c key val)) k = fmlookup (items c) k"
  by (simp add: Set_def Let_def split: option.split)

section \<open>Properties of the handlers\<close>

lemma env_fields: "\<not> db_fails env_ok" "db_fails env_down"
  by (simp_all add: env_ok_def env_down_def)

lemma kvHandler_request_simps:
  "key \<noteq> [] \<Longrightarrow> kvHandler e s (request ''GET'' key v) = handleGet e s key"
  "key \<noteq> [] \<Longrightarrow> kvHandler e s (request ''PUT'' key v) = handlePut e s (request ''PUT'' key v) key"
  "key \<noteq> [] \<Longrightarrow> kvHandler e s (request ''DELETE'' key v) = handleDelete e s key"
  by (simp_all add: kvHandler_def request_def TrimPrefix_def Let_def)

lemma request_fields:
  "Method (request m key v) = m"
  "Path (request m key v) = ''/kv/'' @ key"
  "length v \<le> bufSize \<Longrightarrow> read_value (request m key v) = v"
  by (simp_all add: request_def read_value_def)

lemma Read_value:
  "Read (Body r) (replicate bufSize z) = (b1, n, err) \<Longrightarrow> take n b1 = read_value r"
  by (auto simp: Read_def Let_def read_value_def min_def)

lemma handlePut_eq:
  "handlePut e s r key =
     (if db_fails e
      then (http_Error ''Database error'' 500, s\<lparr>trace := trace s @ [DbUpsert key (read_value r)]\<rparr>)
      else (\<lparr>status = 200, body = []\<rparr>,
            s\<lparr>db := fmupd key (read_value r) (db s),
              cache := Set (range_pref e) (cache s) key (read_value r),
              trace := trace s @ [DbUpsert key (read_value r), CacheSet key (read_value r)]\<rparr>))"
proof -
  obtain b1 n err where rd: "Read (Body r) (replicate bufSize (CHR 0x00)) = (b1, n, err)"
    by (cases "Read (Body r) (replicate bufSize (CHR 0x00))") auto
  then have "take n b1 = read_value r"
    by (rule Read_value)
  with rd show ?thesis
    by (simp add: handlePut_def Exec_upsert_def Let_def)
qed

lemma handleDelete_eq:
  "handleDelete e s key =
     (if db_fails e
      then (http_Error ''Database error'' 500, s\<lparr>trace := trace s @ [DbDelete key]\<rparr>)
      else (\<lparr>status = 200, body = []\<rparr>,
            s\<lparr>db := fmdrop key (db s), cache := Delete (cache s) key,
              trace := trace s @ [DbDelete key, CacheDelete key]\<rparr>))"
  by (simp add: handleDelete_def Exec_delete_def Let_def)

lemma handleGet_hit:
  "fmlookup (items (cache s)) key = Some v \<Longrightarrow>
   handleGet e s key =
     (\<lparr>status = 200, body = v\<rparr>,
      s\<lparr>cache := (cache s)\<lparr>hits := hits (cache s) + 1\<rparr>, trace := trace s @ [CacheGet key]\<rparr>)"
  by (simp add: handleGet_def Get_def)

lemma handleGet_miss_fails:
  "fmlookup (items (cache s)) key = None \<Longrightarrow> db_fails e \<Longrightarrow>
   handleGet e s key =
     (http_Error ''Database error'' 500,
      s\<lparr>cache := (cache s)\<lparr>misses := misses (cache s) + 1\<rparr>,
        trace := trace s @ [CacheGet key, DbSelect key]\<rparr>)"
  by (simp add: handleGet_def Get_def QueryRow_Scan_def)

lemma handleGet_miss_norows:
  "fmlookup (items (cache s)) key = None \<Longrightarrow> \<not> db_fails e \<Longrightarrow> fmlookup (db s) key = None \<Longrightarrow>
   handleGet e s key =
     (http_Error ''Key not found'' 404,
      s\<lparr>cache := (cache s)\<lparr>misses := misses (cache s) + 1\<rparr>,
        trace := trace s @ [CacheGet key, DbSelect key]\<rparr>)"
  by (simp add: handleGet_def Get_def QueryRow_Scan_def)

lemma handleGet_miss_found:
  "fmlookup (items (cache s)) key = None \<Longrightarrow> \<not> db_fails e \<Longrightarrow> fmlookup (db s) key = Some v \<Longrightarrow>
   handleGet e s key =
     (\<lparr>status = 200, body = v\<rparr>,
      s\<lparr>cache := Set (range_pref e) ((cache s)\<lparr>misses := misses (cache s) + 1\<rparr>) key v,
        trace := trace s @ [CacheGet key, DbSelect key, CacheSet key v]\<rparr>)"
  by (simp add: handleGet_def Get_def QueryRow_Scan_def)

lemma items_Set_misses:
  "items (Set pref (c\<lparr>misses := m\<rparr>) key v) = items (Set pref c key v)"
  by (simp add: Set_def Let_def split: option.split)

lemma server_kv_eq:
  "server_kv =
     \<lparr>db = fmupd ''k'' ''v'' fmempty,
      cache = \<lparr>items = fmupd ''k'' ''v'' fmempty, maxSize = 2, hits = 0, misses = 0\<rparr>,
      trace = [DbUpsert ''k'' ''v'', CacheSet ''k'' ''v'']\<rparr>"
  by (simp add: server_kv_def kvHandler_request_simps handlePut_eq request_fields bufSize_def
      env_fields server0_def NewCache_def Set_def len_def Let_def fcard_fempty)

text \<open>
  C4: \<^verbatim>\<open>handleGet\<close> answers a cache hit with the cached value and sends nothing to the
  store. On a miss it queries the store: a value found is answered and written into the
  cache with \<^verbatim>\<open>Set\<close>; a missing row is answered with 404 and a failing query with 500,
  and in both cases the entries of the cache stay as they were.
\<close>

theorem handleGet_cases:
  "(\<forall>v. fmlookup (items (cache s)) key = Some v \<longrightarrow>
      fst (handleGet e s key) = \<lparr>status = 200, body = v\<rparr> \<and>
      db (snd (handleGet e s key)) = db s \<and>
      items (cache (snd (handleGet e s key))) = items (cache s) \<and>
      trace (snd (handleGet e s key)) = trace s @ [CacheGet key]) \<and>
   (fmlookup (items (cache s)) key = None \<longrightarrow>
      db (snd (handleGet e s key)) = db s \<and>
      (\<forall>v. \<not> db_fails e \<and> fmlookup (db s) key = Some v \<longrightarrow>
         fst (handleGet e s key) = \<lparr>status = 200, body = v\<rparr> \<and>
         items (cache (snd (handleGet e s key))) = items (Set (range_pref e) (cache s) key v) \<and>
         trace (snd (handleGet e s key)) = trace s @ [CacheGet key, DbSelect key, CacheSet key v]) \<and>
      (\<not> db_fails e \<and> fmlookup (db s) key = None \<longrightarrow>
         fst (handleGet e s key) = http_Error ''Key not found'' 404 \<and>
         items (cache (snd (handleGet e s key))) = items (cache s) \<and>
         trace (snd (handleGet e s key)) = trace s @ [CacheGet key, DbSelect key]) \<and>
      (db_fails e \<longrightarrow>
         fst (handleGet e s key) = http_Error ''Database error'' 500 \<and>
         items (cache (snd (handleGet e s key))) = items (cache s) \<and>
         trace (snd (handleGet e s key)) = trace s @ [CacheGet key, DbSelect key]))"
proof (intro conjI impI allI)
  fix v
  assume "fmlookup (items (cache s)) key = Some v"
  then have eq: "handleGet e s key =
     (\<lparr>status = 200, body = v\<rparr>,
      s\<lparr>cache := (cache s)\<lparr>hits := hits (cache s) + 1\<rparr>, trace := trace s @ [CacheGet key]\<rparr>)"
    by (rule handleGet_hit)
  show "fst (handleGet e s key) = \<lparr>status = 200, body = v\<rparr>"
    by (simp add: eq)
  show "db (snd (handleGet e s key)) = db s"
    by (simp add: eq)
  show "items (cache (snd (handleGet e s key))) = items (cache s)"
    by (simp add: eq)
  show "trace (snd (handleGet e s key)) = trace s @ [CacheGet key]"
    by (simp add: eq)
next
  assume miss: "fmlookup (items (cache s)) key = None"
  show "db (snd (handleGet e s key)) = db s"
  proof (cases "db_fails e")
    case True
    with miss show ?thesis by (simp add: handleGet_miss_fails)
  next
    case False
    with miss show ?thesis
      by (cases "fmlookup (db s) key") (simp_all add: handleGet_miss_norows handleGet_miss_found)
  qed
  {
    fix v
    assume "\<not> db_fails e \<and> fmlookup (db s) key = Some v"
    with miss have eq: "handleGet e s key =
       (\<lparr>status = 200, body = v\<rparr>,
        s\<lparr>cache := Set (range_pref e) ((cache s)\<lparr>misses := misses (cache s) + 1\<rparr>) key v,
          trace := trace s @ [CacheGet key, DbSelect key, CacheSet key v]\<rparr>)"
      by (simp add: handleGet_miss_found)
    show "fst (handleGet e s key) = \<lparr>status = 200, body = v\<rparr>"
      by (simp add: eq)
    show "items (cache (snd (handleGet e s key))) = items (Set (range_pref e) (cache s) key v)"
      by (simp add: eq items_Set_misses)
    show "trace (snd (handleGet e s key)) = trace s @ [CacheGet key, DbSelect key, CacheSet key v]"
      by (simp add: eq)
  }
  {
    assume "\<not> db_fails e \<and> fmlookup (db s) key = None"
    with miss have eq: "handleGet e s key =
       (http_Error ''Key not found'' 404,
        s\<lparr>cache := (cache s)\<lparr>misses := misses (cache s) + 1\<rparr>,
          trace := trace s @ [CacheGet key, DbSelect key]\<rparr>)"
      by (simp add: handleGet_miss_norows)
    show "fst (handleGet e s key) = http_Error ''Key not found'' 404"
      by (simp add: eq)
    show "items (cache (snd (handleGet e s key))) = items (cache s)"
      by (simp add: eq)
    show "trace (snd (handleGet e s key)) = trace s @ [CacheGet key, DbSelect key]"
      by (simp add: eq)
  }
  {
    assume "db_fails e"
    with miss have eq: "handleGet e s key =
       (http_Error ''Database error'' 500,
        s\<lparr>cache := (cache s)\<lparr>misses := misses (cache s) + 1\<rparr>,
          trace := trace s @ [CacheGet key, DbSelect key]\<rparr>)"
      by (simp add: handleGet_miss_fails)
    show "fst (handleGet e s key) = http_Error ''Database error'' 500"
      by (simp add: eq)
    show "items (cache (snd (handleGet e s key))) = items (cache s)"
      by (simp add: eq)
    show "trace (snd (handleGet e s key)) = trace s @ [CacheGet key, DbSelect key]"
      by (simp add: eq)
  }
qed


theorem handleGet_cases_witness:
  "fmlookup (items (cache server_kv)) ''k'' = Some ''v'' \<and>
   fst (handleGet env_down server_kv ''k'') = \<lparr>status = 200, body = ''v''\<rparr> \<and>
   trace (snd (handleGet env_down server_kv ''k'')) = trace server_kv @ [CacheGet ''k''] \<and>
   fmlookup (items (cache server_cold)) ''k'' = None \<and>
   fmlookup (db server_cold) ''k'' = Some ''v'' \<and>
   fst (handleGet env_ok server_cold ''k'') = \<lparr>status = 200, body = ''v''\<rparr> \<and>
   fmlookup (items (cache (snd (handleGet env_ok server_cold ''k'')))) ''k'' = Some ''v'' \<and>
   fmlookup (db (server0 2)) ''k'' = None \<and>
   fst (handleGet env_ok (server0 2) ''k'') = http_Error ''Key not found'' 404 \<and>
   items (cache (snd (handleGet env_ok (server0 2) ''k''))) = fmempty \<and>
   fst (handleGet env_down (server0 2) ''k'') = http_Error ''Database error'' 500 \<and>
   items (cache (snd (handleGet env_down (server0 2) ''k''))) = fmempty"
  using handleGet_cases [where s = server_kv and key = "''k''" and e = env_down]
    handleGet_cases [where s = server_cold and key = "''k''" and e = env_ok]
    handleGet_cases [where s = "server0 2" and key = "''k''" and e = env_ok]
    handleGet_cases [where s = "server0 2" and key = "''k''" and e = env_down]
  by (simp add: server_kv_eq server_cold_def server0_def NewCache_def env_fields Set_lookup_key)

text \<open>
  C5: \<^verbatim>\<open>handlePut\<close> and \<^verbatim>\<open>handleDelete\<close> send their statement to the store first. When
  it fails they answer 500 and leave the cache as it was; when it succeeds the table is
  updated and only then the cache is, with \<^verbatim>\<open>Set\<close> and \<^verbatim>\<open>Delete\<close>.
\<close>

theorem store_before_cache:
  "(db_fails e \<longrightarrow>
      fst (handlePut e s r key) = http_Error ''Database error'' 500 \<and>
      cache (snd (handlePut e s r key)) = cache s \<and>
      trace (snd (handlePut e s r key)) = trace s @ [DbUpsert key (read_value r)] \<and>
      fst (handleDelete e s key) = http_Error ''Database error'' 500 \<and>
      cache (snd (handleDelete e s key)) = cache s \<and>
      trace (snd (handleDelete e s key)) = trace s @ [DbDelete key]) \<and>
   (\<not> db_fails e \<longrightarrow>
      status (fst (handlePut e s r key)) = 200 \<and>
      db (snd (handlePut e s r key)) = fmupd key (read_value r) (db s) \<and>
      cache (snd (handlePut e s r key)) = Set (range_pref e) (cache s) key (read_value r) \<and>
      trace (snd (handlePut e s r key))
        = trace s @ [DbUpsert key (read_value r), CacheSet key (read_value r)] \<and>
      status (fst (handleDelete e s key)) = 200 \<and>
      db (snd (handleDelete e s key)) = fmdrop key (db s) \<and>
      cache (snd (handleDelete e s key)) = Delete (cache s) key \<and>
      trace (snd (handleDelete e s key)) = trace s @ [DbDelete key, CacheDelete key])"
  by (simp add: handlePut_eq handleDelete_eq)

theorem store_before_cache_witness:
  "db_fails env_down \<and>
   fst (handlePut env_down server_kv (request ''PUT'' ''k'' ''w'') ''k'')
     = http_Error ''Database error'' 500 \<and>
   fmlookup (items (cache (snd (handlePut env_down server_kv (request ''PUT'' ''k'' ''w'') ''k''))))
     ''k'' = Some ''v'' \<and>
   fmlookup (items (cache (snd (handleDelete env_down server_kv ''k'')))) ''k'' = Some ''v'' \<and>
   \<not> db_fails env_ok \<and>
   trace (snd (handlePut env_ok (server0 2) (request ''PUT'' ''k'' ''v'') ''k''))
     = [DbUpsert ''k'' ''v'', CacheSet ''k'' ''v''] \<and>
   trace (snd (handleDelete env_ok server_kv ''k''))
     = trace server_kv @ [DbDelete ''k'', CacheDelete ''k''] \<and>
   fmlookup (items (cache (snd (handleDelete env_ok server_kv ''k'')))) ''k'' = None"
  using store_before_cache [where e = env_down and s = server_kv
      and r = "request ''PUT'' ''k'' ''w''" and key = "''k''"]
    store_before_cache [where e = env_ok and s = "server0 2"
      and r = "request ''PUT'' ''k'' ''v''" and key = "''k''"]
    store_before_cache [where e = env_ok and s = server_kv
      and r = "request ''PUT'' ''k'' ''v''" and key = "''k''"]
  by (simp add: env_fields request_fields bufSize_def server_kv_eq server0_def Delete_def)

lemma fresh_handleGet:
  assumes "fresh k v s"
  shows "fresh k v (snd (handleGet e s key))"
proof (cases "fmlookup (items (cache s)) key")
  case (Some w)
  with assms show ?thesis
    by (simp add: handleGet_hit fresh_def)
next
  case None
  show ?thesis
  proof (cases "db_fails e")
    case True
    with None assms show ?thesis
      by (simp add: handleGet_miss_fails fresh_def)
  next
    case False
    show ?thesis
    proof (cases "fmlookup (db s) key")
      case None
      with \<open>fmlookup (items (cache s)) key = None\<close> False assms show ?thesis
        by (simp add: handleGet_miss_norows fresh_def)
    next
      case (Some w)
      note found = handleGet_miss_found [OF \<open>fmlookup (items (cache s)) key = None\<close> False Some]
      show ?thesis
      proof (cases "key = k")
        case True
        with assms Some have "w = v"
          by (simp add: fresh_def)
        with True assms show ?thesis
          unfolding found by (simp add: fresh_def Set_lookup_key)
      next
        case False
        from Set_lookup_other [OF False, of "range_pref e" "cache s" w] assms
        show ?thesis
          by (auto simp: found fresh_def items_Set_misses)
      qed
    qed
  qed
qed

lemma fresh_handlePut:
  assumes "fresh k v s" and "key \<noteq> k"
  shows "fresh k v (snd (handlePut e s r key))"
  using assms Set_lookup_other [OF assms(2), of "range_pref e" "cache s" "read_value r"]
  by (auto simp: handlePut_eq fresh_def)

lemma fresh_handleDelete:
  assumes "fresh k v s" and "key \<noteq> k"
  shows "fresh k v (snd (handleDelete e s key))"
  using assms by (auto simp: handleDelete_eq fresh_def Delete_def)

lemma fresh_kvHandler:
  assumes "fresh k v s" and "\<not> writes_or_removes k r"
  shows "fresh k v (snd (kvHandler e s r))"
  using assms
  by (auto simp: kvHandler_def Let_def writes_or_removes_def
      fresh_handleGet fresh_handlePut fresh_handleDelete)

lemma fresh_serve:
  "fresh k v s \<Longrightarrow> \<forall>x \<in> set reqs. \<not> writes_or_removes k (snd x) \<Longrightarrow> fresh k v (serve s reqs)"
  by (induction reqs arbitrary: s) (simp_all add: fresh_kvHandler)

lemma handlePut_ok: "status (fst (handlePut e s r key)) = 200 \<longleftrightarrow> \<not> db_fails e"
  by (simp add: handlePut_eq http_Error_def)

lemma fresh_after_put:
  "\<not> db_fails e \<Longrightarrow> fresh k (read_value r) (snd (handlePut e s r k)) \<and>
     fmlookup (items (cache (snd (handlePut e s r k)))) k = Some (read_value r)"
  by (simp add: handlePut_eq fresh_def Set_lookup_key)

lemma fresh_read:
  assumes "fresh k v s"
  shows "fst (handleGet e s k) = \<lparr>status = 200, body = v\<rparr> \<or>
     db_fails e \<and> fmlookup (items (cache s)) k = None \<and>
     fst (handleGet e s k) = http_Error ''Database error'' 500"
proof (cases "fmlookup (items (cache s)) k")
  case (Some w)
  with assms show ?thesis
    by (simp add: handleGet_hit fresh_def)
next
  case None
  with assms show ?thesis
    by (cases "db_fails e") (simp_all add: handleGet_miss_fails handleGet_miss_found fresh_def)
qed

lemma read_after_write_value:
  assumes "status (fst (handlePut e0 s r0 k)) = 200"
    and "\<forall>x \<in> set reqs. \<not> writes_or_removes k (snd x)"
  shows "fst (handleGet e (serve (snd (handlePut e0 s r0 k)) reqs) k)
            = \<lparr>status = 200, body = read_value r0\<rparr> \<or>
          db_fails e \<and>
          fmlookup (items (cache (serve (snd (handlePut e0 s r0 k)) reqs))) k = None \<and>
          fst (handleGet e (serve (snd (handlePut e0 s r0 k)) reqs) k)
            = http_Error ''Database error'' 500"
    and "fst (handleGet e (snd (handlePut e0 s r0 k)) k) = \<lparr>status = 200, body = read_value r0\<rparr>"
proof -
  from assms(1) have ok: "\<not> db_fails e0"
    by (simp add: handlePut_ok)
  then have "fresh k (read_value r0) (snd (handlePut e0 s r0 k))"
    by (simp add: fresh_after_put)
  from this assms(2) have "fresh k (read_value r0) (serve (snd (handlePut e0 s r0 k)) reqs)"
    by (rule fresh_serve)
  then show "fst (handleGet e (serve (snd (handlePut e0 s r0 k)) reqs) k)
            = \<lparr>status = 200, body = read_value r0\<rparr> \<or>
          db_fails e \<and>
          fmlookup (items (cache (serve (snd (handlePut e0 s r0 k)) reqs))) k = None \<and>
          fst (handleGet e (serve (snd (handlePut e0 s r0 k)) reqs) k)
            = http_Error ''Database error'' 500"
    by (rule fresh_read)
  from ok have "fmlookup (items (cache (snd (handlePut e0 s r0 k)))) k = Some (read_value r0)"
    by (simp add: fresh_after_put)
  then show "fst (handleGet e (snd (handlePut e0 s r0 k)) k)
      = \<lparr>status = 200, body = read_value r0\<rparr>"
    by (simp add: handleGet_hit)
qed

text \<open>
  C6, as amended: let a \<^verbatim>\<open>handlePut\<close> for \<open>k\<close> answer 200, its payload fit the buffer and
  arrive whole with the first read, and let requests follow that neither write nor
  remove \<open>k\<close>. Then \<^verbatim>\<open>handleGet\<close> for \<open>k\<close> answers the payload, or answers 500 when \<open>k\<close> is
  no longer cached and the query fails. It answers the payload whenever the query does
  not fail, and always when it follows the write directly.
\<close>

theorem read_your_write:
  assumes "status (fst (handlePut e0 s r0 k)) = 200"
    and "length (payload (Body r0)) \<le> bufSize"
    and "length (payload (Body r0)) \<le> avail (Body r0)"
    and "\<forall>x \<in> set reqs. \<not> writes_or_removes k (snd x)"
  shows "(fst (handleGet e (serve (snd (handlePut e0 s r0 k)) reqs) k)
            = \<lparr>status = 200, body = payload (Body r0)\<rparr> \<or>
          db_fails e \<and>
          fmlookup (items (cache (serve (snd (handlePut e0 s r0 k)) reqs))) k = None \<and>
          fst (handleGet e (serve (snd (handlePut e0 s r0 k)) reqs) k)
            = http_Error ''Database error'' 500) \<and>
         (\<not> db_fails e \<longrightarrow>
            fst (handleGet e (serve (snd (handlePut e0 s r0 k)) reqs) k)
              = \<lparr>status = 200, body = payload (Body r0)\<rparr>) \<and>
         (reqs = [] \<longrightarrow>
            fst (handleGet e (snd (handlePut e0 s r0 k)) k)
              = \<lparr>status = 200, body = payload (Body r0)\<rparr>)"
proof -
  from assms(2,3) have whole: "read_value r0 = payload (Body r0)"
    by (simp add: read_value_def)
  from read_after_write_value [OF assms(1) assms(4), of e] show ?thesis
    unfolding whole by blast
qed

theorem read_your_write_witness:
  "status (fst (handlePut env_ok (server0 1) (request ''PUT'' ''k'' ''v'') ''k'')) = 200 \<and>
   length (payload (Body (request ''PUT'' ''k'' ''v''))) \<le> bufSize \<and>
   length (payload (Body (request ''PUT'' ''k'' ''v'')))
     \<le> avail (Body (request ''PUT'' ''k'' ''v'')) \<and>
   \<not> writes_or_removes ''k'' (request ''PUT'' ''j'' ''w'') \<and>
   \<not> writes_or_removes ''k'' (request ''GET'' ''j'' []) \<and>
   fst (handleGet env_ok
          (serve (snd (handlePut env_ok (server0 1) (request ''PUT'' ''k'' ''v'') ''k''))
             [(env_ok, request ''PUT'' ''j'' ''w''), (env_ok, request ''GET'' ''j'' [])])
          ''k'')
     = \<lparr>status = 200, body = ''v''\<rparr>"
proof -
  have ok: "status (fst (handlePut env_ok (server0 1) (request ''PUT'' ''k'' ''v'') ''k'')) = 200"
    by (simp add: handlePut_eq env_fields)
  have fits: "length (payload (Body (request ''PUT'' ''k'' ''v''))) \<le> bufSize"
    by (simp add: request_def bufSize_def)
  have whole: "length (payload (Body (request ''PUT'' ''k'' ''v'')))
      \<le> avail (Body (request ''PUT'' ''k'' ''v''))"
    by (simp add: request_def)
  have others: "\<forall>x \<in> set [(env_ok, request ''PUT'' ''j'' ''w''), (env_ok, request ''GET'' ''j'' [])].
      \<not> writes_or_removes ''k'' (snd x)"
    by (simp add: writes_or_removes_def request_fields TrimPrefix_def)
  have v: "payload (Body (request ''PUT'' ''k'' ''v'')) = ''v''"
    by (simp add: request_def)
  from read_your_write [OF ok fits whole others, of env_ok] ok fits whole others
  show ?thesis
    unfolding v by (simp add: env_fields)
qed

text \<open>
  C6 as stated fails: with capacity 1 the write of \<open>j\<close> evicts \<open>k\<close>, and the read of \<open>k\<close>
  that follows finds the store failing.
\<close>

theorem read_after_eviction_counterexample:
  "status (fst (kvHandler env_ok (server0 1) (request ''PUT'' ''k'' ''v''))) = 200 \<and>
   \<not> writes_or_removes ''k'' (request ''PUT'' ''j'' ''w'') \<and>
   fst (kvHandler env_down
          (serve (snd (kvHandler env_ok (server0 1) (request ''PUT'' ''k'' ''v'')))
             [(env_ok, request ''PUT'' ''j'' ''w'')])
          (request ''GET'' ''k'' []))
     = http_Error ''Database error'' 500"
  by (simp add: kvHandler_request_simps handlePut_eq request_fields bufSize_def
      env_ok_def env_down_def server0_def writes_or_removes_def handleGet_def Get_def
      QueryRow_Scan_def NewCache_def Set_def len_def range_first_def Let_def
      fcard_finsert_if fcard_fempty TrimPrefix_def)

text \<open>
  C7: a body of \<open>bufSize + 1\<close> bytes is answered with 200, and the table and the cache
  hold its first \<open>bufSize\<close> bytes.
\<close>

theorem handlePut_truncates:
  "length (payload (Body big_put)) = bufSize + 1 \<and>
   status (fst (kvHandler env_ok (server0 1000) big_put)) = 200 \<and>
   fmlookup (db (snd (kvHandler env_ok (server0 1000) big_put))) ''k''
     = Some (replicate bufSize (CHR ''x'')) \<and>
   fmlookup (items (cache (snd (kvHandler env_ok (server0 1000) big_put)))) ''k''
     = Some (replicate bufSize (CHR ''x''))"
proof -
  have key: "kvHandler env_ok (server0 1000) big_put = handlePut env_ok (server0 1000) big_put ''k''"
    by (simp add: kvHandler_def big_put_def TrimPrefix_def Let_def)
  have val: "read_value big_put = replicate bufSize (CHR ''x'')"
    by (simp add: read_value_def big_put_def del: replicate.simps)
  have size: "length (payload (Body big_put)) = bufSize + 1"
    by (simp add: big_put_def)
  have ok: "\<not> db_fails env_ok"
    by (simp add: env_ok_def)
  from size show ?thesis
    unfolding key by (simp add: handlePut_eq val ok Set_lookup_key)
qed

text \<open>A read that reports an error after two bytes is answered with 200 as well.\<close>

lemma handlePut_ignores_read_error:
  "rerr (Body torn_put) \<and>
   status (fst (kvHandler env_ok (server0 1000) torn_put)) = 200 \<and>
   fmlookup (db (snd (kvHandler env_ok (server0 1000) torn_put))) ''k'' = Some ''he''"
proof -
  have key: "kvHandler env_ok (server0 1000) torn_put = handlePut env_ok (server0 1000) torn_put ''k''"
    by (simp add: kvHandler_def torn_put_def TrimPrefix_def Let_def)
  have val: "read_value torn_put = ''he''"
    by (simp add: read_value_def torn_put_def bufSize_def)
  have err: "rerr (Body torn_put)"
    by (simp add: torn_put_def)
  have ok: "\<not> db_fails env_ok"
    by (simp add: env_ok_def)
  from err show ?thesis
    unfolding key by (simp add: handlePut_eq val ok)
qed


end
